theory Spec2Isabelle
  imports Complex_Main "HOL-Library.Multiset"
begin

section \<open>The Euro problem: a grid posterior for the bias of a coin\<close>

text \<open>
  The notebook \<^verbatim>\<open>02_euro.ipynb\<close> keeps a probability mass function as a pandas
  \<^verbatim>\<open>Series\<close> of float64 masses indexed by the grid \<^verbatim>\<open>xs\<close>, and updates it with
  elementwise NumPy arithmetic. The update is modelled twice. In \<open>update_in\<close> the
  arithmetic of float64 is a parameter: what is proved of it holds whatever the products,
  powers, sums and quotients of float64 are, rounding and underflow included. In
  \<open>update\<close> the numbers are exact rationals, with the special values of IEEE arithmetic
  that a division by a zero sum produces without raising; it is \<open>update_in\<close> at the
  exact arithmetic (lemma \<open>update_exact\<close>), and it is used for what does not turn on
  rounding: the update when every product is zero, the update with no outcome, and
  which objects a statement changes. The grid \<open>linspace\<close> holds the exact values
  \<open>start + i * (stop - start) / (num - 1)\<close>, which the doubles of NumPy round; no
  property below depends on the interior points of the notebook's grid.
\<close>

subsection \<open>Values\<close>

datatype fval = Num rat | PInf | NInf | NaN

datatype error = ValueError | IndexError

text \<open>A float times a finite float (the arrays built from the grid are finite).\<close>

fun fmul :: "fval \<Rightarrow> rat \<Rightarrow> fval" where
  "fmul (Num a) b = Num (a * b)"
| "fmul PInf b = (if 0 < b then PInf else if b < 0 then NInf else NaN)"
| "fmul NInf b = (if 0 < b then NInf else if b < 0 then PInf else NaN)"
| "fmul NaN b = NaN"

fun fadd :: "fval \<Rightarrow> fval \<Rightarrow> fval" where
  "fadd (Num a) (Num b) = Num (a + b)"
| "fadd NaN v = NaN"
| "fadd v NaN = NaN"
| "fadd PInf NInf = NaN"
| "fadd NInf PInf = NaN"
| "fadd PInf v = PInf"
| "fadd v PInf = PInf"
| "fadd NInf v = NInf"
| "fadd v NInf = NInf"

text \<open>
  Division of floats: nothing raises. \<open>0 / 0\<close> is NaN and a nonzero number over zero is
  an infinity (the sign of a zero is not modelled: every zero is \<open>+0\<close>).
\<close>

fun fdiv :: "fval \<Rightarrow> fval \<Rightarrow> fval" where
  "fdiv NaN d = NaN"
| "fdiv v NaN = NaN"
| "fdiv (Num a) (Num b) =
     (if b \<noteq> 0 then Num (a / b)
      else if a = 0 then NaN else if 0 < a then PInf else NInf)"
| "fdiv (Num a) PInf = Num 0"
| "fdiv (Num a) NInf = Num 0"
| "fdiv PInf (Num b) = (if b < 0 then NInf else PInf)"
| "fdiv NInf (Num b) = (if b < 0 then PInf else NInf)"
| "fdiv PInf PInf = NaN"
| "fdiv PInf NInf = NaN"
| "fdiv NInf PInf = NaN"
| "fdiv NInf NInf = NaN"

subsection \<open>Arrays and series\<close>

text \<open>
  A \<^verbatim>\<open>Series\<close> is the list of its (index label, value) pairs in order, so index and
  values have the same length, as pandas enforces. A NumPy array of finite numbers is a
  list of rationals.
\<close>

type_synonym series = "(rat \<times> fval) list"

text \<open>
  A PMF in the sense of the data model, a series all of whose masses are finite numbers,
  is written as the list of its (grid value, mass) pairs; \<open>as_series\<close> is the series
  it stands for.
\<close>

type_synonym pmf = "(rat \<times> rat) list"

definition as_series :: "pmf \<Rightarrow> series" where
  "as_series p = map (\<lambda>(x, m). (x, Num m)) p"

text \<open>\<^verbatim>\<open>np.linspace(start, stop, num)\<close>, endpoint included.\<close>

definition linspace :: "rat \<Rightarrow> rat \<Rightarrow> nat \<Rightarrow> rat list" where
  "linspace start stop num =
     map (\<lambda>i. of_nat i * ((stop - start) / of_nat (num - 1)) + start) [0..<num]"

text \<open>\<^verbatim>\<open>pd.Series(p, index=xs)\<close> with a scalar \<open>p\<close>: the scalar at every label.\<close>

definition Series_scalar :: "rat \<Rightarrow> rat list \<Rightarrow> series" where
  "Series_scalar p xs = map (\<lambda>x. (x, Num p)) xs"

text \<open>\<^verbatim>\<open>pd.Series(ps, xs)\<close> with an array: the lengths must agree.\<close>

definition Series_array :: "rat list \<Rightarrow> rat list \<Rightarrow> error + series" where
  "Series_array ps xs =
     (if length ps = length xs then Inr (as_series (zip xs ps)) else Inl ValueError)"

text \<open>
  \<^verbatim>\<open>series * array\<close>: a new series with the same index, the values multiplied by
  position. An array of length one is broadcast; any other length mismatch raises.
\<close>

definition series_mul :: "series \<Rightarrow> rat list \<Rightarrow> error + series" where
  "series_mul s a =
     (if length a = length s then Inr (map2 (\<lambda>(x, v) b. (x, fmul v b)) s a)
      else if length a = 1 then Inr (map (\<lambda>(x, v). (x, fmul v (hd a))) s)
      else Inl ValueError)"

text \<open>\<^verbatim>\<open>array ** n\<close> and \<^verbatim>\<open>1 - array\<close>.\<close>

definition arr_pow :: "rat list \<Rightarrow> nat \<Rightarrow> rat list" where
  "arr_pow a n = map (\<lambda>x. x ^ n) a"

definition one_minus :: "rat list \<Rightarrow> rat list" where
  "one_minus a = map (\<lambda>x. 1 - x) a"

text \<open>\<^verbatim>\<open>series.sum()\<close>: pandas skips NaN entries (\<^verbatim>\<open>skipna=True\<close>).\<close>

definition series_sum :: "series \<Rightarrow> fval" where
  "series_sum s = foldl fadd (Num 0) (filter (\<lambda>v. v \<noteq> NaN) (map snd s))"

text \<open>\<^verbatim>\<open>series /= d\<close>: every value divided by the scalar.\<close>

definition series_div :: "series \<Rightarrow> fval \<Rightarrow> series" where
  "series_div s d = map (\<lambda>(x, v). (x, fdiv v d)) s"

text \<open>The statement \<^verbatim>\<open>s /= s.sum()\<close> that ends cells 5, 8, 10 and 11.\<close>

definition normalize :: "series \<Rightarrow> series" where
  "normalize s = series_div s (series_sum s)"

subsection \<open>The cells of the notebook\<close>

text \<open>Cell 2: the grid \<^verbatim>\<open>xs\<close> and the uniform prior.\<close>

definition grid :: "rat list" where
  "grid = linspace 0 1 101"

definition prior :: series where
  "prior = Series_scalar (1 / 101) grid"

text \<open>Cell 4, for any grid: \<^verbatim>\<open>likelihood_heads = xs\<close>, \<^verbatim>\<open>likelihood_tails = 1 - xs\<close>.\<close>

definition likelihood_heads :: "rat list \<Rightarrow> rat list" where
  "likelihood_heads xs = xs"

definition likelihood_tails :: "rat list \<Rightarrow> rat list" where
  "likelihood_tails xs = one_minus xs"

text \<open>Cell 5: one heads and one tails.\<close>

definition posterior :: "error + series" where
  "posterior =
     (case series_mul prior (likelihood_heads grid) of Inl e \<Rightarrow> Inl e
      | Inr s \<Rightarrow>
     (case series_mul s (likelihood_tails grid) of Inl e \<Rightarrow> Inl e
      | Inr s' \<Rightarrow> Inr (normalize s')))"

text \<open>
  Cell 7: \<^verbatim>\<open>np.arange(50)\<close> is 0, 1, ..., 49 and \<^verbatim>\<open>np.arange(50, -1, -1)\<close> is
  50, 49, ..., 0; \<^verbatim>\<open>np.append\<close> puts the second after the first.
\<close>

definition ramp_up :: "rat list" where
  "ramp_up = map of_nat [0..<50]"

definition ramp_down :: "rat list" where
  "ramp_down = rev (map of_nat [0..<51])"

definition ps_ramps :: "rat list" where
  "ps_ramps = ramp_up @ ramp_down"

text \<open>Cell 8: the triangle prior.\<close>

definition triangle :: "error + series" where
  "triangle =
     (case Series_array ps_ramps grid of Inl e \<Rightarrow> Inl e | Inr s \<Rightarrow> Inr (normalize s))"

text \<open>Cells 10 and 11: 140 heads and 110 tails, from the uniform and the triangle prior.\<close>

definition posterior1 :: "error + series" where
  "posterior1 =
     (case series_mul prior (arr_pow (likelihood_heads grid) 140) of Inl e \<Rightarrow> Inl e
      | Inr s \<Rightarrow>
     (case series_mul s (arr_pow (likelihood_tails grid) 110) of Inl e \<Rightarrow> Inl e
      | Inr s' \<Rightarrow> Inr (normalize s')))"

definition posterior2 :: "error + series" where
  "posterior2 =
     (case triangle of Inl e \<Rightarrow> Inl e
      | Inr t \<Rightarrow>
     (case series_mul t (arr_pow (likelihood_heads grid) 140) of Inl e \<Rightarrow> Inl e
      | Inr s \<Rightarrow>
     (case series_mul s (arr_pow (likelihood_tails grid) 110) of Inl e \<Rightarrow> Inl e
      | Inr s' \<Rightarrow> Inr (normalize s'))))"

subsection \<open>The update for any data\<close>

text \<open>
  The notebook has no function for the update: cells 5, 10 and 11 write it out for their
  data, and Exercise 1 asks the reader to run it again for other counts. \<open>update\<close> is
  the two statements of those cells for a list of outcomes with counts: one product
  \<^verbatim>\<open>* likelihood ** count\<close> per outcome, from left to right as Python evaluates the
  expression, then \<^verbatim>\<open>/= sum()\<close>. The cells are its instances (lemmas
  \<open>posterior_update\<close>, \<open>posterior1_update\<close>, \<open>posterior2_update\<close>).
\<close>

datatype outcome = Heads | Tails

fun likelihood :: "outcome \<Rightarrow> rat list \<Rightarrow> rat list" where
  "likelihood Heads xs = likelihood_heads xs"
| "likelihood Tails xs = likelihood_tails xs"

fun weigh :: "series \<Rightarrow> rat list \<Rightarrow> (outcome \<times> nat) list \<Rightarrow> error + series" where
  "weigh s xs [] = Inr s"
| "weigh s xs ((l, c) # os) =
     (case series_mul s (arr_pow (likelihood l xs) c) of Inl e \<Rightarrow> Inl e
      | Inr s' \<Rightarrow> weigh s' xs os)"

definition update :: "series \<Rightarrow> rat list \<Rightarrow> (outcome \<times> nat) list \<Rightarrow> error + series" where
  "update s xs os =
     (case weigh s xs os of Inl e \<Rightarrow> Inl e | Inr s' \<Rightarrow> Inr (normalize s'))"

subsection \<open>The update in any arithmetic\<close>

text \<open>
  The arithmetic of the arrays: \<open>a_mul\<close> is the product of a series value and an array
  element, \<open>a_pow\<close> is \<^verbatim>\<open>element ** n\<close>, \<open>a_one_minus\<close> is \<^verbatim>\<open>1 - element\<close>, \<open>a_sum\<close> is
  \<^verbatim>\<open>Series.sum()\<close> on the values and \<open>a_div\<close> the quotient of a value by that sum. They
  are NumPy's and pandas', not the notebook's, and stay parameters. \<open>'a\<close> is the type of
  the labels and array elements, \<open>'v\<close> the type of the values; both are float64 in the
  notebook.
\<close>

record ('a, 'v) arith =
  a_mul :: "'v \<Rightarrow> 'a \<Rightarrow> 'v"
  a_pow :: "'a \<Rightarrow> nat \<Rightarrow> 'a"
  a_one_minus :: "'a \<Rightarrow> 'a"
  a_sum :: "'v list \<Rightarrow> 'v"
  a_div :: "'v \<Rightarrow> 'v \<Rightarrow> 'v"

text \<open>The statements of the update cells in such an arithmetic, as \<open>update\<close> has them.\<close>

definition series_mul_in ::
  "('a, 'v) arith \<Rightarrow> ('a \<times> 'v) list \<Rightarrow> 'a list \<Rightarrow> error + ('a \<times> 'v) list" where
  "series_mul_in ar s a =
     (if length a = length s then Inr (map2 (\<lambda>(x, v) b. (x, a_mul ar v b)) s a)
      else if length a = 1 then Inr (map (\<lambda>(x, v). (x, a_mul ar v (hd a))) s)
      else Inl ValueError)"

definition normalize_in :: "('a, 'v) arith \<Rightarrow> ('a \<times> 'v) list \<Rightarrow> ('a \<times> 'v) list" where
  "normalize_in ar s = map (\<lambda>(x, v). (x, a_div ar v (a_sum ar (map snd s)))) s"

fun likelihood_in :: "('a, 'v) arith \<Rightarrow> outcome \<Rightarrow> 'a list \<Rightarrow> 'a list" where
  "likelihood_in ar Heads xs = xs"
| "likelihood_in ar Tails xs = map (a_one_minus ar) xs"

fun weigh_in ::
  "('a, 'v) arith \<Rightarrow> ('a \<times> 'v) list \<Rightarrow> 'a list \<Rightarrow> (outcome \<times> nat) list
   \<Rightarrow> error + ('a \<times> 'v) list" where
  "weigh_in ar s xs [] = Inr s"
| "weigh_in ar s xs ((l, c) # os) =
     (case series_mul_in ar s (map (\<lambda>x. a_pow ar x c) (likelihood_in ar l xs)) of
        Inl e \<Rightarrow> Inl e
      | Inr s' \<Rightarrow> weigh_in ar s' xs os)"

definition update_in ::
  "('a, 'v) arith \<Rightarrow> ('a \<times> 'v) list \<Rightarrow> 'a list \<Rightarrow> (outcome \<times> nat) list
   \<Rightarrow> error + ('a \<times> 'v) list" where
  "update_in ar s xs os =
     (case weigh_in ar s xs os of Inl e \<Rightarrow> Inl e | Inr s' \<Rightarrow> Inr (normalize_in ar s'))"

text \<open>The exact arithmetic of \<open>update\<close>.\<close>

definition exact :: "(rat, fval) arith" where
  "exact = \<lparr>a_mul = fmul, a_pow = (\<lambda>x n. x ^ n), a_one_minus = (\<lambda>x. 1 - x),
            a_sum = (\<lambda>vs. foldl fadd (Num 0) (filter (\<lambda>v. v \<noteq> NaN) vs)), a_div = fdiv\<rparr>"

text \<open>
  Section 4.3 and 4.4 of the specification in the same arithmetic, one grid point at a
  time: \<open>lik_in\<close> is \<open>likelihood(label, x)\<close>, \<open>product_at\<close> the prior mass at \<open>x\<close>
  multiplied by \<open>likelihood(label, x) ** count\<close> for each outcome in turn, \<open>products\<close>
  that product at every grid point, and \<open>posterior_in\<close> each product divided by the sum
  of the products over the grid.
\<close>

fun lik_in :: "('a, 'v) arith \<Rightarrow> outcome \<Rightarrow> 'a \<Rightarrow> 'a" where
  "lik_in ar Heads x = x"
| "lik_in ar Tails x = a_one_minus ar x"

definition product_at :: "('a, 'v) arith \<Rightarrow> (outcome \<times> nat) list \<Rightarrow> 'a \<Rightarrow> 'v \<Rightarrow> 'v" where
  "product_at ar os x m = foldl (\<lambda>w (l, c). a_mul ar w (a_pow ar (lik_in ar l x) c)) m os"

definition products :: "('a, 'v) arith \<Rightarrow> ('a \<times> 'v) list \<Rightarrow> (outcome \<times> nat) list \<Rightarrow> ('a \<times> 'v) list" where
  "products ar pr os = map (\<lambda>(x, m). (x, product_at ar os x m)) pr"

definition posterior_in ::
  "('a, 'v) arith \<Rightarrow> ('a \<times> 'v) list \<Rightarrow> (outcome \<times> nat) list \<Rightarrow> ('a \<times> 'v) list" where
  "posterior_in ar pr os =
     map (\<lambda>(x, w). (x, a_div ar w (a_sum ar (map snd (products ar pr os))))) (products ar pr os)"

subsection \<open>The products in exact arithmetic\<close>

text \<open>
  On rationals: \<open>lik\<close> is \<open>likelihood(label, x)\<close>, \<open>weight_at\<close> the product over the
  outcomes of \<open>likelihood(label, x) ** count\<close>, \<open>unnormalized\<close> the prior mass times that
  product at every grid point, and \<open>total_mass\<close> the sum of the masses.
\<close>

fun lik :: "outcome \<Rightarrow> rat \<Rightarrow> rat" where
  "lik Heads x = x"
| "lik Tails x = 1 - x"

definition weight_at :: "(outcome \<times> nat) list \<Rightarrow> rat \<Rightarrow> rat" where
  "weight_at os x = prod_list (map (\<lambda>(l, c). lik l x ^ c) os)"

definition unnormalized :: "pmf \<Rightarrow> (outcome \<times> nat) list \<Rightarrow> pmf" where
  "unnormalized p os = map (\<lambda>(x, m). (x, m * weight_at os x)) p"

definition total_mass :: "pmf \<Rightarrow> rat" where
  "total_mass p = sum_list (map snd p)"

subsection \<open>Objects and names\<close>

text \<open>
  Whether an update changes the prior depends on which statements build a new
  \<^verbatim>\<open>Series\<close> and which change one in place. The objects live in a heap, a list in
  order of allocation, and a reference is a position in it. \<^verbatim>\<open>a * array\<close> allocates
  the product; \<^verbatim>\<open>a /= a.sum()\<close> replaces the values of the object \<open>a\<close> names, and every
  other name of that object sees the change.
\<close>

type_synonym ref = nat

type_synonym heap = "series list"

definition mul_obj :: "heap \<Rightarrow> ref \<Rightarrow> rat list \<Rightarrow> error + (ref \<times> heap)" where
  "mul_obj h r a =
     (case series_mul (h ! r) a of Inl e \<Rightarrow> Inl e | Inr s \<Rightarrow> Inr (length h, h @ [s]))"

definition idiv_sum_obj :: "heap \<Rightarrow> ref \<Rightarrow> heap" where
  "idiv_sum_obj h r = h[r := normalize (h ! r)]"

text \<open>
  The expression \<^verbatim>\<open>prior * l1 ** c1 * l2 ** c2 ...\<close> from the object \<open>r\<close>: a chain of
  products, each on the object the one before allocated.
\<close>

fun weigh_obj :: "heap \<Rightarrow> ref \<Rightarrow> rat list \<Rightarrow> (outcome \<times> nat) list \<Rightarrow> error + (ref \<times> heap)" where
  "weigh_obj h r xs [] = Inr (r, h)"
| "weigh_obj h r xs ((l, c) # os) =
     (case mul_obj h r (arr_pow (likelihood l xs) c) of Inl e \<Rightarrow> Inl e
      | Inr (r', h') \<Rightarrow> weigh_obj h' r' xs os)"

text \<open>
  The two statements of an update cell on the heap, for any list of outcomes. With no
  outcome the expression is the name of the prior alone: the assignment binds the
  posterior to the object of the prior, and \<^verbatim>\<open>/=\<close> then changes that object.
\<close>

definition update_obj ::
  "heap \<Rightarrow> ref \<Rightarrow> rat list \<Rightarrow> (outcome \<times> nat) list \<Rightarrow> error + (ref \<times> heap)" where
  "update_obj h r xs os =
     (case weigh_obj h r xs os of Inl e \<Rightarrow> Inl e
      | Inr (r', h') \<Rightarrow> Inr (r', idiv_sum_obj h' r'))"

subsection \<open>Summaries\<close>

text \<open>
  \<^verbatim>\<open>idxmax\<close> and \<^verbatim>\<open>credible_interval\<close> are modelled on series with finite values.
  \<^verbatim>\<open>Series.idxmax()\<close> is the label at the first position that holds the largest value;
  it raises ValueError on an empty series.
\<close>

fun first_max :: "rat \<times> rat \<Rightarrow> pmf \<Rightarrow> rat \<times> rat" where
  "first_max b [] = b"
| "first_max b (q # qs) = first_max (if snd b < snd q then q else b) qs"

definition idxmax :: "pmf \<Rightarrow> error + rat" where
  "idxmax p = (case p of [] \<Rightarrow> Inl ValueError | q # qs \<Rightarrow> Inr (fst (first_max q qs)))"

text \<open>\<^verbatim>\<open>pmf.cumsum()\<close>: the running sums, under the same index.\<close>

fun cumsum_from :: "rat \<Rightarrow> pmf \<Rightarrow> pmf" where
  "cumsum_from a [] = []"
| "cumsum_from a ((x, m) # r) = (x, a + m) # cumsum_from (a + m) r"

definition cumsum :: "pmf \<Rightarrow> pmf" where
  "cumsum p = cumsum_from 0 p"

text \<open>
  Modelled from the spec: \<^verbatim>\<open>scipy.interpolate.interp1d\<close> is a library routine that the
  repository calls and does not contain (section 6: a facility for monotonic
  one-dimensional interpolation; section 4.5: interpolation between grid points, and
  outside the domain the boundary value). The argument \<open>cdf\<close> holds the pairs
  (grid value, cumulative sum): the cumulative sums are the abscissae and the grid values
  the ordinates. Inside the domain \<open>linear_np\<close> takes the segment that begins at the last
  point whose cumulative sum is at most \<open>t\<close>, found by a scan from the left as
  \<^verbatim>\<open>numpy.interp\<close> finds it on a non-decreasing array, and returns the grid value itself
  at the last point and where \<open>t\<close> equals the cumulative sum. \<open>interp1d\<close> is the call with
  \<^verbatim>\<open>bounds_error=False\<close> and \<^verbatim>\<open>fill_value=(lo, hi)\<close>. Whether the library accepts
  a single point depends on its version; the properties below are stated for grids of
  at least two points, as section 4.1 requires of a grid.
\<close>

fun linear_np :: "pmf \<Rightarrow> rat \<Rightarrow> rat" where
  "linear_np ((x0, y0) # (x1, y1) # rest) t =
     (if y1 \<le> t then linear_np ((x1, y1) # rest) t
      else if y0 = t then x0
      else (x1 - x0) / (y1 - y0) * (t - y0) + x0)"
| "linear_np [(x0, y0)] t = x0"
| "linear_np [] t = 0"

definition interp1d :: "pmf \<Rightarrow> rat \<Rightarrow> rat \<Rightarrow> rat \<Rightarrow> rat" where
  "interp1d cdf lo hi t =
     (if snd (last cdf) < t then hi
      else if t < snd (hd cdf) then lo
      else linear_np cdf t)"

text \<open>
  Cell 18. \<^verbatim>\<open>xs[0]\<close> raises IndexError on an empty index; \<^verbatim>\<open>prob\<close> is used as it
  comes.
\<close>

definition credible_interval :: "pmf \<Rightarrow> rat \<Rightarrow> error + (rat \<times> rat)" where
  "credible_interval p prob =
     (case p of [] \<Rightarrow> Inl IndexError
      | _ # _ \<Rightarrow>
        let ys = cumsum p;
            t = (1 - prob) / 2;
            lo = fst (hd p);
            hi = fst (last p)
        in Inr (interp1d ys lo hi t, interp1d ys lo hi (1 - t)))"

section \<open>Properties\<close>

subsection \<open>Finite series\<close>

lemma foldl_fadd_Num: "foldl fadd (Num a) (map Num ms) = Num (a + sum_list ms)"
  by (induction ms arbitrary: a) (simp_all add: add.assoc)

lemma filter_Num: "filter (\<lambda>v. v \<noteq> NaN) (map Num ms) = map Num ms"
  by (induction ms) simp_all

lemma snd_as_series: "map snd (as_series p) = map Num (map snd p)"
  by (simp add: as_series_def split_def)

lemma fst_as_series: "map fst (as_series p) = map fst p"
  by (simp add: as_series_def split_def)

lemma series_sum_as_series: "series_sum (as_series p) = Num (total_mass p)"
  unfolding series_sum_def snd_as_series filter_Num foldl_fadd_Num total_mass_def by simp

lemma normalize_as_series:
  "total_mass p \<noteq> 0 \<Longrightarrow>
   normalize (as_series p) = as_series (map (\<lambda>(x, m). (x, m / total_mass p)) p)"
  unfolding normalize_def series_sum_as_series
  by (simp add: series_div_def as_series_def split_def)

subsection \<open>The triangle prior\<close>

lemma grid_eq: "grid = map (\<lambda>i. of_nat i / 100) [0..<101]"
  by (simp add: grid_def linspace_def)

lemma length_grid: "length grid = 101"
  by (simp add: grid_eq)

lemma grid_nth: "i \<le> 100 \<Longrightarrow> grid ! i = of_nat i / 100"
  by (simp add: grid_eq)

lemma length_ps_ramps: "length ps_ramps = 101"
  by (simp add: ps_ramps_def ramp_up_def ramp_down_def)

lemma ps_ramps_nth: "i \<le> 100 \<Longrightarrow> ps_ramps ! i = of_nat (if i < 50 then i else 100 - i)"
  by (auto simp: ps_ramps_def ramp_up_def ramp_down_def nth_append rev_nth)

lemma sum_ps_ramps: "sum_list ps_ramps = 2500"
proof -
  have "sum_list [0..<50] = (1225::nat)" "sum_list [0..<51] = (1275::nat)"
    by (simp_all add: Sum_Ico_nat)
  then show ?thesis
    by (simp add: ps_ramps_def ramp_up_def ramp_down_def sum_list_of_nat)
qed

lemma triangle_eq: "triangle = Inr (as_series (zip grid (map (\<lambda>w. w / 2500) ps_ramps)))"
proof -
  have "total_mass (zip grid ps_ramps) = 2500"
    by (simp add: total_mass_def length_grid length_ps_ramps sum_ps_ramps)
  then show ?thesis
    by (simp add: triangle_def Series_array_def length_grid length_ps_ramps
        normalize_as_series zip_map2 split_def)
qed

text \<open>
  Claim C10. The weights of cell 7 are 101 numbers, as many as the grid has points, and
  the triangle prior built from them in cell 8 over the grid is symmetric about the
  middle index: the mass at the grid point of index \<open>i\<close> is the mass at the grid point
  of index \<open>100 - i\<close>, for every \<open>i\<close> from 0 to 100.
\<close>

theorem triangle_symmetric:
  "\<exists>t. triangle = Inr (as_series t) \<and> length ps_ramps = 101 \<and> length grid = 101
     \<and> map fst t = grid
     \<and> (\<forall>i\<in>{0..100}. snd (t ! i) = snd (t ! (100 - i)))"
proof -
  define t where "t = zip grid (map (\<lambda>w. w / 2500) ps_ramps)"
  have nth: "t ! i = (grid ! i, ps_ramps ! i / 2500)" if "i \<le> 100" for i
    using that by (simp add: t_def length_grid length_ps_ramps)
  show ?thesis
  proof (intro exI [of _ t] conjI ballI)
    show "triangle = Inr (as_series t)"
      by (simp only: triangle_eq t_def)
    show "length ps_ramps = 101"
      by (rule length_ps_ramps)
    show "length grid = 101"
      by (rule length_grid)
    show "map fst t = grid"
      by (simp add: t_def length_grid length_ps_ramps)
  next
    fix i :: nat
    assume "i \<in> {0..100}"
    then have i: "i \<le> 100" by simp
    have "(if i < 50 then i else 100 - i) = (if 100 - i < 50 then 100 - i else 100 - (100 - i))"
      using i by arith
    then have "ps_ramps ! i = ps_ramps ! (100 - i)"
      using i by (simp only: ps_ramps_nth diff_le_self)
    then show "snd (t ! i) = snd (t ! (100 - i))"
      using i by (simp add: nth)
  qed
qed

theorem triangle_symmetric_witness:
  "\<exists>t. triangle = Inr (as_series t) \<and> snd (t ! 3) = snd (t ! 97)"
proof -
  from triangle_symmetric obtain t where t: "triangle = Inr (as_series t)"
    "\<forall>i\<in>{0..100}. snd (t ! i) = snd (t ! (100 - i))"
    by blast
  have "(3::nat) \<in> {0..100}" by simp
  with t(2) have "snd (t ! 3) = snd (t ! (100 - 3))"
    by blast
  with t(1) show ?thesis by auto
qed

subsection \<open>The update on a PMF over the grid\<close>

lemma map2_same: "map2 g (map h p) (map k p) = map (\<lambda>q. g (h q) (k q)) p"
  by (induction p) simp_all

lemma series_mul_as_series:
  assumes "map fst p = xs"
  shows "series_mul (as_series p) (map f xs) = Inr (as_series (map (\<lambda>(x, m). (x, m * f x)) p))"
proof -
  have len: "length (map f xs) = length (as_series p)"
    using assms by (auto simp: as_series_def dest: arg_cong [where f = length])
  have "map2 (\<lambda>(x, v) b. (x, fmul v b)) (as_series p) (map f xs)
        = map2 (\<lambda>(x, v) b. (x, fmul v b)) (map (\<lambda>(x, m). (x, Num m)) p) (map (\<lambda>q. f (fst q)) p)"
    using assms by (auto simp: as_series_def comp_def)
  also have "\<dots> = as_series (map (\<lambda>(x, m). (x, m * f x)) p)"
    unfolding map2_same by (simp add: as_series_def split_def)
  finally show ?thesis
    using len by (simp add: series_mul_def)
qed

lemma likelihood_pointwise: "arr_pow (likelihood l xs) c = map (\<lambda>x. lik l x ^ c) xs"
  by (cases l) (simp_all add: arr_pow_def likelihood_heads_def likelihood_tails_def one_minus_def)

lemma unnormalized_Nil: "unnormalized p [] = p"
  by (simp add: unnormalized_def weight_at_def)

lemma unnormalized_Cons:
  "unnormalized p ((l, c) # os) = unnormalized (map (\<lambda>(x, m). (x, m * lik l x ^ c)) p) os"
  by (simp add: unnormalized_def weight_at_def split_def mult.assoc)

lemma fst_unnormalized: "map fst (unnormalized p os) = map fst p"
  by (simp add: unnormalized_def split_def)

lemma weigh_as_series:
  "map fst p = xs \<Longrightarrow> weigh (as_series p) xs os = Inr (as_series (unnormalized p os))"
proof (induction os arbitrary: p)
  case Nil
  show ?case by (simp add: unnormalized_Nil)
next
  case (Cons oc os)
  obtain l c where oc: "oc = (l, c)" by (cases oc)
  let ?p' = "map (\<lambda>(x, m). (x, m * lik l x ^ c)) p"
  have "map fst ?p' = xs"
    using Cons.prems by (simp add: split_def comp_def)
  from Cons.IH [OF this] show ?case
    by (simp add: oc likelihood_pointwise series_mul_as_series [OF Cons.prems] unnormalized_Cons)
qed

lemma update_as_series:
  "map fst p = xs \<Longrightarrow>
   update (as_series p) xs os = Inr (normalize (as_series (unnormalized p os)))"
  by (simp add: update_def weigh_as_series)

lemma prior_as_series: "prior = as_series (map (\<lambda>x. (x, 1 / 101)) grid)"
  by (simp add: prior_def Series_scalar_def as_series_def)

lemma update_two_outcomes:
  "update s xs [(Heads, a), (Tails, b)] =
     (case series_mul s (arr_pow (likelihood_heads xs) a) of Inl e \<Rightarrow> Inl e
      | Inr s1 \<Rightarrow>
     (case series_mul s1 (arr_pow (likelihood_tails xs) b) of Inl e \<Rightarrow> Inl e
      | Inr s2 \<Rightarrow> Inr (normalize s2)))"
  by (simp add: update_def split: sum.splits)

lemma arr_pow_one: "arr_pow a 1 = a"
  by (simp add: arr_pow_def)

lemma posterior_update: "posterior = update prior grid [(Heads, 1), (Tails, 1)]"
  by (simp only: posterior_def update_two_outcomes arr_pow_one)

lemma posterior1_update: "posterior1 = update prior grid [(Heads, 140), (Tails, 110)]"
  by (simp only: posterior1_def update_two_outcomes)

lemma posterior2_update:
  "posterior2 = (case triangle of Inl e \<Rightarrow> Inl e
                 | Inr t \<Rightarrow> update t grid [(Heads, 140), (Tails, 110)])"
  by (simp only: posterior2_def update_two_outcomes)

subsection \<open>The update, point by point\<close>

lemma series_mul_in_index:
  assumes "map fst s = xs"
  shows "series_mul_in ar s (map f xs) = Inr (map (\<lambda>(x, v). (x, a_mul ar v (f x))) s)"
proof -
  have len: "length (map f xs) = length s"
    using assms by (auto dest: arg_cong [where f = length])
  have "map2 (\<lambda>(x, v) b. (x, a_mul ar v b)) s (map f xs)
        = map2 (\<lambda>(x, v) b. (x, a_mul ar v b)) (map (\<lambda>q. q) s) (map (\<lambda>q. f (fst q)) s)"
    using assms by (auto simp: comp_def)
  also have "\<dots> = map (\<lambda>(x, v). (x, a_mul ar v (f x))) s"
    unfolding map2_same by (simp add: split_def)
  finally show ?thesis
    using len by (simp add: series_mul_in_def)
qed

lemma likelihood_in_pointwise:
  "map (\<lambda>x. a_pow ar x c) (likelihood_in ar l xs) = map (\<lambda>x. a_pow ar (lik_in ar l x) c) xs"
  by (cases l) (simp_all add: comp_def)

lemma product_at_Cons:
  "product_at ar ((l, c) # os) x m = product_at ar os x (a_mul ar m (a_pow ar (lik_in ar l x) c))"
  by (simp add: product_at_def)

lemma weigh_in_products:
  "map fst s = xs \<Longrightarrow> weigh_in ar s xs os = Inr (products ar s os)"
proof (induction os arbitrary: s)
  case Nil
  show ?case by (simp add: products_def product_at_def split_def)
next
  case (Cons oc os)
  obtain l c where oc: "oc = (l, c)" by (cases oc)
  let ?s' = "map (\<lambda>(x, v). (x, a_mul ar v (a_pow ar (lik_in ar l x) c))) s"
  have step: "series_mul_in ar s (map (\<lambda>x. a_pow ar x c) (likelihood_in ar l xs)) = Inr ?s'"
    unfolding likelihood_in_pointwise using Cons.prems by (rule series_mul_in_index)
  have "map fst ?s' = xs"
    using Cons.prems by (simp add: split_def comp_def)
  then have "weigh_in ar ?s' xs os = Inr (products ar ?s' os)"
    by (rule Cons.IH)
  moreover have "products ar ?s' os = products ar s ((l, c) # os)"
    by (simp add: products_def product_at_Cons split_def comp_def)
  ultimately show ?case
    by (simp add: oc step)
qed

text \<open>
  Claim C1. In whatever arithmetic the arrays are computed, for a prior over the grid and
  any list of outcomes with counts the update returns the series whose value at each grid
  point \<open>x\<close> is the prior mass at \<open>x\<close> multiplied by \<open>likelihood(label, x) ** count\<close> for
  each outcome, divided by the sum of these products over all grid points: the products
  are formed point by point and then normalised.
\<close>

theorem update_is_pointwise_posterior:
  assumes "map fst pr = xs"
  shows "update_in ar pr xs os = Inr (posterior_in ar pr os)"
proof -
  have "weigh_in ar pr xs os = Inr (products ar pr os)"
    using assms by (rule weigh_in_products)
  then have "update_in ar pr xs os = Inr (normalize_in ar (products ar pr os))"
    by (simp add: update_in_def)
  also have "normalize_in ar (products ar pr os) = posterior_in ar pr os"
    by (simp add: normalize_in_def posterior_in_def)
  finally show ?thesis .
qed

lemma series_mul_exact: "series_mul_in exact s a = series_mul s a"
  by (simp add: series_mul_in_def series_mul_def exact_def)

lemma normalize_exact: "normalize_in exact s = normalize s"
  by (simp add: normalize_in_def normalize_def series_div_def series_sum_def exact_def)

lemma likelihood_exact: "map (\<lambda>x. a_pow exact x c) (likelihood_in exact l xs) = arr_pow (likelihood l xs) c"
  by (cases l) (simp_all add: exact_def arr_pow_def likelihood_heads_def likelihood_tails_def one_minus_def)

lemma weigh_exact: "weigh_in exact s xs os = weigh s xs os"
proof (induction os arbitrary: s)
  case Nil
  show ?case by simp
next
  case (Cons oc os)
  obtain l c where oc: "oc = (l, c)" by (cases oc)
  show ?case
    by (simp add: oc likelihood_exact series_mul_exact Cons.IH split: sum.splits)
qed

lemma update_exact: "update_in exact s xs os = update s xs os"
  by (simp add: update_in_def update_def weigh_exact normalize_exact split: sum.splits)

lemma update_in_two_outcomes:
  "update_in ar s xs [(Heads, a), (Tails, b)] =
     (case series_mul_in ar s (map (\<lambda>x. a_pow ar x a) xs) of Inl e \<Rightarrow> Inl e
      | Inr s1 \<Rightarrow>
     (case series_mul_in ar s1 (map (\<lambda>x. a_pow ar x b) (map (a_one_minus ar) xs)) of
        Inl e \<Rightarrow> Inl e
      | Inr s2 \<Rightarrow> Inr (normalize_in ar s2)))"
  by (simp add: update_in_def split: sum.splits)

lemma posterior1_update_in: "posterior1 = update_in exact prior grid [(Heads, 140), (Tails, 110)]"
  by (simp only: posterior1_update update_exact)

theorem update_is_pointwise_posterior_witness:
  "map fst [(1/4, Num (1/2)), (3/4, Num (1/2))] = [1/4, 3/4 :: rat]
   \<and> posterior_in exact [(1/4, Num (1/2)), (3/4, Num (1/2))] [(Heads, 2), (Tails, 1)]
       = [(1/4, Num (1/4)), (3/4, Num (3/4))]
   \<and> update_in exact [(1/4, Num (1/2)), (3/4, Num (1/2))] [1/4, 3/4] [(Heads, 2), (Tails, 1)]
       = Inr [(1/4, Num (1/4)), (3/4, Num (3/4))]"
proof -
  have a: "map fst [(1/4, Num (1/2)), (3/4, Num (1/2))] = [1/4, 3/4 :: rat]"
    by simp
  have b: "posterior_in exact [(1/4, Num (1/2)), (3/4, Num (1/2))] [(Heads, 2), (Tails, 1)]
       = [(1/4, Num (1/4)), (3/4, Num (3/4))]"
    by (simp add: posterior_in_def products_def product_at_def exact_def power2_eq_square)
  from update_is_pointwise_posterior [OF a, of exact "[(Heads, 2), (Tails, 1)]"] a b
  show ?thesis by simp
qed

subsection \<open>Degenerate and empty updates\<close>

lemma normalize_all_zero:
  assumes "\<forall>(x, m)\<in>set q. m = 0"
  shows "normalize (as_series q) = map (\<lambda>x. (x, NaN)) (map fst q)"
proof -
  have "total_mass q = 0"
    using assms by (induction q) (auto simp: total_mass_def)
  then show ?thesis
    using assms unfolding normalize_def series_sum_as_series
    by (auto simp: series_div_def as_series_def)
qed

text \<open>
  Claim C2, as the notebook has it. When every grid point has zero mass after the
  multiplication by the likelihoods, the update raises nothing: the division by the zero
  sum is carried out, and the result is the series over the same grid with NaN at every
  grid point.
\<close>

theorem degenerate_update_returns_nan:
  assumes "map fst p = xs" and "\<forall>(x, m)\<in>set (unnormalized p os). m = 0"
  shows "update (as_series p) xs os = Inr (map (\<lambda>x. (x, NaN)) xs)"
proof -
  have "update (as_series p) xs os = Inr (normalize (as_series (unnormalized p os)))"
    using assms(1) by (rule update_as_series)
  also have "normalize (as_series (unnormalized p os))
             = map (\<lambda>x. (x, NaN)) (map fst (unnormalized p os))"
    using assms(2) by (rule normalize_all_zero)
  also have "map fst (unnormalized p os) = xs"
    using assms(1) by (simp add: fst_unnormalized)
  finally show ?thesis .
qed

theorem degenerate_update_returns_nan_witness:
  "map fst [(0, 1), (1/2, 0 :: rat)] = [0, 1/2 :: rat]
   \<and> unnormalized [(0, 1), (1/2, 0)] [(Heads, 2)] = [(0, 0), (1/2, 0)]
   \<and> update (as_series [(0, 1), (1/2, 0)]) [0, 1/2] [(Heads, 2)] = Inr [(0, NaN), (1/2, NaN)]"
proof -
  have a: "map fst [(0, 1), (1/2, 0 :: rat)] = [0, 1/2 :: rat]"
    by simp
  have b: "\<forall>(x, m)\<in>set (unnormalized [(0, 1), (1/2, 0)] [(Heads, 2)]). m = 0"
    by (simp add: unnormalized_def weight_at_def)
  have c: "unnormalized [(0, 1), (1/2, 0)] [(Heads, 2)] = [(0, 0), (1/2, 0)]"
    by (simp add: unnormalized_def weight_at_def)
  from degenerate_update_returns_nan [OF a b] a c show ?thesis
    by simp
qed

text \<open>
  The claim as stated fails on the grid \<open>0, 1\<close> with the uniform prior and one heads and
  one tails: every product is zero, and the update returns a series of NaN, not an error.
\<close>

theorem degenerate_update_counterexample:
  "update (Series_scalar (1/2) (linspace 0 1 2)) (linspace 0 1 2) [(Heads, 1), (Tails, 1)]
     = Inr [(0, NaN), (1, NaN)]"
proof -
  have "linspace 0 1 2 = [0, 1]"
    by code_simp
  then show ?thesis
    by (simp add: update_def Series_scalar_def series_mul_def arr_pow_def
        likelihood_heads_def likelihood_tails_def one_minus_def normalize_def series_sum_def
        series_div_def)
qed

lemma update_Nil: "update s xs [] = Inr (normalize s)"
  by (simp add: update_def)

text \<open>
  Claim C7. With no outcomes the update only divides by the sum: the result is the prior
  with every mass divided by the prior's total mass.
\<close>

theorem update_no_outcomes:
  "update (as_series p) xs [] = Inr (series_div (as_series p) (Num (total_mass p)))
   \<and> (total_mass p \<noteq> 0 \<longrightarrow>
        update (as_series p) xs [] = Inr (as_series (map (\<lambda>(x, m). (x, m / total_mass p)) p)))"
proof (intro conjI impI)
  have "update (as_series p) xs [] = Inr (normalize (as_series p))"
    by (rule update_Nil)
  then show "update (as_series p) xs [] = Inr (series_div (as_series p) (Num (total_mass p)))"
    by (simp add: normalize_def series_sum_as_series)
next
  assume "total_mass p \<noteq> 0"
  then show "update (as_series p) xs []
             = Inr (as_series (map (\<lambda>(x, m). (x, m / total_mass p)) p))"
    by (simp add: update_Nil normalize_as_series)
qed

theorem update_no_outcomes_witness:
  "total_mass [(0, 1), (1/2, 2), (1, 1)] \<noteq> 0
   \<and> update (as_series [(0, 1), (1/2, 2), (1, 1)]) [0, 1/2, 1] []
       = Inr (as_series [(0, 1/4), (1/2, 1/2), (1, 1/4)])"
proof -
  have t: "total_mass [(0, 1), (1/2, 2), (1, 1)] = 4"
    by (simp add: total_mass_def)
  have "total_mass [(0, 1), (1/2, 2), (1, 1)] \<noteq> 0 \<longrightarrow>
        update (as_series [(0, 1), (1/2, 2), (1, 1)]) [0, 1/2, 1] []
        = Inr (as_series (map (\<lambda>(x, m). (x, m / total_mass [(0, 1), (1/2, 2), (1, 1)]))
                 [(0, 1), (1/2, 2), (1, 1)]))"
    using update_no_outcomes [of "[(0, 1), (1/2, 2), (1, 1)]" "[0, 1/2, 1]"] by (rule conjunct2)
  with t show ?thesis
    by simp
qed

subsection \<open>The prior after an update\<close>

lemma weigh_obj_frame:
  "r < length h \<Longrightarrow>
   (case weigh_obj h r xs os of
      Inl e \<Rightarrow> weigh (h ! r) xs os = Inl e
    | Inr (r', h') \<Rightarrow>
        r' < length h' \<and> take (length h) h' = h \<and> weigh (h ! r) xs os = Inr (h' ! r')
        \<and> (if os = [] then r' = r else length h \<le> r'))"
proof (induction os arbitrary: h r)
  case Nil
  then show ?case by simp
next
  case (Cons oc os)
  obtain l c where oc: "oc = (l, c)" by (cases oc)
  show ?case
  proof (cases "series_mul (h ! r) (arr_pow (likelihood l xs) c)")
    case (Inl e)
    then show ?thesis
      by (simp add: oc mul_obj_def)
  next
    case (Inr s)
    let ?h1 = "h @ [s]"
    have IH: "case weigh_obj ?h1 (length h) xs os of
        Inl e \<Rightarrow> weigh (?h1 ! length h) xs os = Inl e
      | Inr (r', h') \<Rightarrow>
          r' < length h' \<and> take (length ?h1) h' = ?h1 \<and> weigh (?h1 ! length h) xs os = Inr (h' ! r')
          \<and> (if os = [] then r' = length h else length ?h1 \<le> r')"
      by (rule Cons.IH) simp
    show ?thesis
    proof (cases "weigh_obj ?h1 (length h) xs os")
      case (Inl e)
      with IH Inr show ?thesis
        by (simp add: oc mul_obj_def)
    next
      case res: (Inr rh)
      obtain r' h' where rh: "rh = (r', h')" by (cases rh)
      from IH res rh have a: "r' < length h'" "take (Suc (length h)) h' = ?h1"
        "weigh s xs os = Inr (h' ! r')" "if os = [] then r' = length h else Suc (length h) \<le> r'"
        by (simp_all split: if_splits)
      have "take (length h) h' = take (length h) (take (Suc (length h)) h')"
        by (simp add: min_def)
      also have "\<dots> = h"
        by (simp add: a(2))
      finally have b: "take (length h) h' = h" .
      from a(4) have c: "length h \<le> r'"
        by (simp split: if_splits)
      from a(1,3) b c Inr res rh show ?thesis
        by (simp add: oc mul_obj_def)
    qed
  qed
qed

lemma update_obj_frame:
  assumes "r < length h" and "os \<noteq> []"
  shows "(case update_obj h r xs os of
      Inl e \<Rightarrow> update (h ! r) xs os = Inl e
    | Inr (r', h') \<Rightarrow>
        length h \<le> r' \<and> r' < length h' \<and> take (length h) h' = h
        \<and> update (h ! r) xs os = Inr (h' ! r'))"
proof (cases "weigh_obj h r xs os")
  case (Inl e)
  with weigh_obj_frame [OF assms(1), of xs os] have "weigh (h ! r) xs os = Inl e"
    by simp
  with Inl show ?thesis
    by (simp add: update_obj_def update_def)
next
  case (Inr rh)
  obtain r' h' where rh: "rh = (r', h')" by (cases rh)
  from weigh_obj_frame [OF assms(1), of xs os] Inr rh assms(2)
  have a: "r' < length h'" "take (length h) h' = h"
    "weigh (h ! r) xs os = Inr (h' ! r')" "length h \<le> r'"
    by simp_all
  let ?v = "normalize (h' ! r')"
  have 1: "update_obj h r xs os = Inr (r', h'[r' := ?v])"
    using Inr rh by (simp add: update_obj_def idiv_sum_obj_def)
  have 2: "take (length h) (h'[r' := ?v]) = h"
    using a(2,4) by simp
  have 3: "(h'[r' := ?v]) ! r' = ?v"
    using a(1) by simp
  have 4: "update (h ! r) xs os = Inr ?v"
    using a(3) by (simp add: update_def)
  from a(1,4) 2 3 4 show ?thesis
    unfolding 1 by simp
qed

lemma series_mul_same_length:
  assumes "length a = length s"
  shows "\<exists>s'. series_mul s a = Inr s' \<and> map fst s' = map fst s"
proof -
  have "map fst (map2 (\<lambda>(x, v) b. (x, fmul v b)) s a) = map fst (map fst (zip s a))"
    by (simp add: split_def comp_def)
  also have "\<dots> = map fst s"
    using assms by simp
  finally show ?thesis
    using assms by (simp add: series_mul_def)
qed

lemma length_arr_pow_likelihood: "length (arr_pow (likelihood l xs) c) = length xs"
  by (cases l) (simp_all add: arr_pow_def likelihood_heads_def likelihood_tails_def one_minus_def)

lemma weigh_over_grid:
  "map fst s = xs \<Longrightarrow> \<exists>s'. weigh s xs os = Inr s' \<and> map fst s' = xs"
proof (induction os arbitrary: s)
  case Nil
  then show ?case by simp
next
  case (Cons oc os)
  obtain l c where oc: "oc = (l, c)" by (cases oc)
  from Cons.prems have "length (arr_pow (likelihood l xs) c) = length s"
    by (auto simp: length_arr_pow_likelihood dest: arg_cong [where f = length])
  from series_mul_same_length [OF this] obtain s1 where
    s1: "series_mul s (arr_pow (likelihood l xs) c) = Inr s1" "map fst s1 = map fst s"
    by blast
  from s1(2) Cons.prems have "map fst s1 = xs"
    by simp
  from Cons.IH [OF this] s1(1) show ?case
    by (simp add: oc)
qed

lemma update_over_grid: "map fst s = xs \<Longrightarrow> \<exists>s'. update s xs os = Inr s'"
  using weigh_over_grid [of s xs os] by (auto simp: update_def)

lemma update_obj_ok:
  assumes "r < length h" and "map fst (h ! r) = xs" and "os \<noteq> []"
  shows "\<exists>r' h'. update_obj h r xs os = Inr (r', h')
           \<and> length h \<le> r' \<and> r' < length h' \<and> take (length h) h' = h
           \<and> update (h ! r) xs os = Inr (h' ! r')"
proof (cases "update_obj h r xs os")
  case (Inl e)
  with update_obj_frame [OF assms(1,3), of xs] have "update (h ! r) xs os = Inl e"
    by simp
  with update_over_grid [OF assms(2), of os] show ?thesis
    by simp
next
  case (Inr rh)
  obtain r' h' where "rh = (r', h')" by (cases rh)
  with Inr update_obj_frame [OF assms(1,3), of xs] show ?thesis
    by simp
qed

lemma nth_take_eq: "take n h' = h \<Longrightarrow> i < n \<Longrightarrow> h' ! i = h ! i"
  by (metis nth_take)

text \<open>
  Claim C9, as the notebook's statements have it. Started from the object \<open>r\<close> that holds
  a prior over the grid, an update with at least one outcome returns a reference to an
  object that did not exist before; no object of the old heap has changed, the prior
  among them; the new object holds the posterior \<open>update\<close> computes from the prior; and a
  second update from the same prior with the same data builds one more object with the
  same posterior and leaves the first posterior as it is.
\<close>

theorem update_builds_new_object:
  assumes "r < length h" and "h ! r = pr" and "map fst pr = xs" and "os \<noteq> []"
  shows "\<exists>r' h'. update_obj h r xs os = Inr (r', h')
           \<and> length h \<le> r' \<and> r' < length h' \<and> take (length h) h' = h
           \<and> h' ! r = pr
           \<and> update pr xs os = Inr (h' ! r')
           \<and> (\<exists>r'' h''. update_obj h' r xs os = Inr (r'', h'')
                  \<and> r'' \<noteq> r' \<and> h'' ! r'' = h' ! r' \<and> h'' ! r' = h' ! r'
                  \<and> h'' ! r = pr)"
proof -
  from assms(2,3) have idx: "map fst (h ! r) = xs"
    by simp
  from update_obj_ok [OF assms(1) idx assms(4)] assms(2) obtain r' h' where
    1: "update_obj h r xs os = Inr (r', h')" "length h \<le> r'" "r' < length h'"
       "take (length h) h' = h" "update pr xs os = Inr (h' ! r')"
    by auto
  from nth_take_eq [OF 1(4) assms(1)] assms(2) have keep: "h' ! r = pr"
    by simp
  from assms(1) 1(2,3) have r: "r < length h'"
    by simp
  from keep assms(3) have idx': "map fst (h' ! r) = xs"
    by simp
  from update_obj_ok [OF r idx' assms(4)] keep obtain r'' h'' where
    2: "update_obj h' r xs os = Inr (r'', h'')" "length h' \<le> r''" "r'' < length h''"
       "take (length h') h'' = h'" "update pr xs os = Inr (h'' ! r'')"
    by auto
  from 1(3) 2(2) have "r'' \<noteq> r'"
    by simp
  moreover from 1(5) 2(5) have "h'' ! r'' = h' ! r'"
    by simp
  moreover from 2(4) 1(3) have "h'' ! r' = h' ! r'"
    by (rule nth_take_eq)
  moreover from nth_take_eq [OF 2(4) r] keep have "h'' ! r = pr"
    by simp
  ultimately show ?thesis
    using 1 2(1) keep by blast
qed

theorem update_builds_new_object_witness:
  "\<exists>r' h'. update_obj [as_series [(1/4, 1/2), (3/4, 1/2)]] 0 [1/4, 3/4] [(Heads, 2), (Tails, 1)]
             = Inr (r', h')
     \<and> 1 \<le> r' \<and> h' ! 0 = as_series [(1/4, 1/2), (3/4, 1/2)]
     \<and> h' ! r' = as_series [(1/4, 1/4), (3/4, 3/4)]"
proof -
  let ?pr = "as_series [(1/4, 1/2), (3/4, 1/2)]"
  have a: "0 < length [?pr]"
    by simp
  have b: "[?pr] ! 0 = ?pr"
    by simp
  have c: "map fst ?pr = [1/4, 3/4 :: rat]"
    by (simp add: as_series_def)
  have d: "[(Heads, 2::nat), (Tails, 1)] \<noteq> []"
    by simp
  have e: "update ?pr [1/4, 3/4] [(Heads, 2), (Tails, 1)] = Inr (as_series [(1/4, 1/4), (3/4, 3/4)])"
    by (simp add: update_def as_series_def series_mul_def arr_pow_def likelihood_heads_def
        likelihood_tails_def one_minus_def normalize_def series_sum_def series_div_def
        power2_eq_square)
  from update_builds_new_object [OF a b c d] e show ?thesis
    by auto
qed

text \<open>
  The claim as stated, for every outcome sequence, fails on the empty one: no product is
  formed, the posterior is the object of the prior itself (reference 0), and the masses
  1 and 3 of the prior are overwritten with 1/4 and 3/4.
\<close>

theorem update_builds_new_object_counterexample:
  "update_obj [as_series [(0, 1), (1, 3)]] 0 [0, 1] [] = Inr (0, [as_series [(0, 1/4), (1, 3/4)]])"
  by (simp add: update_obj_def idiv_sum_obj_def normalize_def series_sum_def series_div_def
      as_series_def)

subsection \<open>The mode\<close>

lemma first_max_split:
  "\<exists>pre r post. b # qs = pre @ r # post \<and> first_max b qs = r
     \<and> (\<forall>q\<in>set pre. snd q < snd r) \<and> (\<forall>q\<in>set post. snd q \<le> snd r)"
proof (induction qs arbitrary: b)
  case Nil
  have "[b] = [] @ b # [] \<and> first_max b [] = b
     \<and> (\<forall>q\<in>set []. snd q < snd b) \<and> (\<forall>q\<in>set []. snd q \<le> snd b)"
    by simp
  then show ?case by blast
next
  case (Cons q qs)
  show ?case
  proof (cases "snd b < snd q")
    case True
    from Cons.IH [of q] obtain pre r post where
      s: "q # qs = pre @ r # post" "first_max q qs = r"
         "\<forall>q\<in>set pre. snd q < snd r" "\<forall>q\<in>set post. snd q \<le> snd r"
      by blast
    have "snd q \<le> snd r"
    proof (cases pre)
      case Nil
      with s(1) have "q = r" by simp
      then show ?thesis by simp
    next
      case (Cons a pre')
      with s(1) have "q \<in> set pre" by simp
      with s(3) have "snd q < snd r" by blast
      then show ?thesis by simp
    qed
    with True have lt: "snd b < snd r" by simp
    have 1: "b # q # qs = (b # pre) @ r # post"
      by (simp add: s(1))
    have 2: "first_max b (q # qs) = r"
      using True by (simp add: s(2))
    have 3: "\<forall>q\<in>set (b # pre). snd q < snd r"
      using lt s(3) by simp
    from 1 2 3 s(4) show ?thesis by blast
  next
    case False
    from Cons.IH [of b] obtain pre r post where
      s: "b # qs = pre @ r # post" "first_max b qs = r"
         "\<forall>q\<in>set pre. snd q < snd r" "\<forall>q\<in>set post. snd q \<le> snd r"
      by blast
    have 2: "first_max b (q # qs) = r"
      using False by (simp add: s(2))
    show ?thesis
    proof (cases pre)
      case Nil
      with s(1) have br: "b = r" and qs: "qs = post" by simp_all
      have 1: "b # q # qs = [] @ r # (q # post)"
        by (simp add: br qs)
      have 4: "\<forall>q\<in>set (q # post). snd q \<le> snd r"
        using False s(4) br by simp
      have 3: "\<forall>q\<in>set []. snd q < snd r"
        by simp
      from 1 2 3 4 show ?thesis by blast
    next
      case (Cons a pre')
      with s(1) have a: "a = b" and qs: "qs = pre' @ r # post" by simp_all
      from s(3) Cons a have lt: "snd b < snd r" by simp
      with False have "snd q < snd r" by simp
      with lt s(3) Cons have 3: "\<forall>q\<in>set (b # q # pre'). snd q < snd r"
        by simp
      have 1: "b # q # qs = (b # q # pre') @ r # post"
        by (simp add: qs)
      from 1 2 3 s(4) show ?thesis by blast
    qed
  qed
qed

lemma idxmax_split:
  assumes "p \<noteq> []"
  shows "\<exists>pre x m post. p = pre @ (x, m) # post \<and> idxmax p = Inr x
     \<and> (\<forall>(x', m')\<in>set pre. m' < m) \<and> (\<forall>(x', m')\<in>set post. m' \<le> m)"
proof -
  from assms obtain b qs where p: "p = b # qs" by (cases p) auto
  from first_max_split [of b qs] obtain pre r post where
    s: "b # qs = pre @ r # post" "first_max b qs = r"
       "\<forall>q\<in>set pre. snd q < snd r" "\<forall>q\<in>set post. snd q \<le> snd r"
    by blast
  obtain x m where r: "r = (x, m)" by (cases r)
  from s(2) r p have "idxmax p = Inr x"
    by (simp add: idxmax_def)
  moreover from s(1) r p have "p = pre @ (x, m) # post"
    by simp
  moreover from s(3) r have "\<forall>(x', m')\<in>set pre. m' < m"
    by fastforce
  moreover from s(4) r have "\<forall>(x', m')\<in>set post. m' \<le> m"
    by fastforce
  ultimately show ?thesis by blast
qed

lemma first_max_scale:
  "0 < c \<Longrightarrow> first_max (fst b, c * snd b) (map (\<lambda>(x, m). (x, c * m)) qs)
     = (fst (first_max b qs), c * snd (first_max b qs))"
proof (induction qs arbitrary: b)
  case Nil
  show ?case by simp
next
  case (Cons q qs)
  let ?b' = "if snd b < snd q then q else b"
  have "(c * snd b < c * snd q) = (snd b < snd q)"
    using Cons.prems by simp
  then have "first_max (fst b, c * snd b) (map (\<lambda>(x, m). (x, c * m)) (q # qs))
             = first_max (fst ?b', c * snd ?b') (map (\<lambda>(x, m). (x, c * m)) qs)"
    by (simp add: split_def)
  also have "\<dots> = (fst (first_max ?b' qs), c * snd (first_max ?b' qs))"
    using Cons.prems by (rule Cons.IH)
  finally show ?case by simp
qed

lemma idxmax_scale: "0 < c \<Longrightarrow> idxmax (map (\<lambda>(x, m). (x, c * m)) p) = idxmax p"
proof (cases p)
  case Nil
  then show ?thesis by (simp add: idxmax_def)
next
  case (Cons b qs)
  assume "0 < c"
  from first_max_scale [OF this, of b qs] Cons show ?thesis
    by (simp add: idxmax_def split_def)
qed

lemma first_max_equal: "first_max (x0, w) (map (\<lambda>x. (x, w)) xs) = (x0, w)"
  by (induction xs) simp_all

lemma idxmax_equal_weights: "idxmax (map (\<lambda>x. (x, w)) (x0 # xs)) = Inr x0"
  by (simp add: idxmax_def first_max_equal)


lemma idxmax_lowest:
  fixes p :: pmf
  assumes "p = pre @ (x, m) # post" and "sorted (map fst p)"
    and "\<forall>(x', m')\<in>set pre. m' < m"
  shows "\<forall>(x', m')\<in>set p. m' = m \<longrightarrow> x \<le> x'"
proof -
  from assms(1,2) have post: "\<forall>q\<in>set post. x \<le> fst q"
    by (simp add: sorted_append)
  show ?thesis
  proof (intro ballI, clarify)
    fix x' m'
    assume "(x', m) \<in> set p"
    with assms(1) consider "(x', m) \<in> set pre" | "x' = x" | "(x', m) \<in> set post"
      by auto
    then show "x \<le> x'"
    proof cases
      case 1
      with assms(3) have "m < m" by blast
      then show ?thesis by simp
    next
      case 2
      then show ?thesis by simp
    next
      case 3
      with post show ?thesis by fastforce
    qed
  qed
qed

text \<open>
  Claim C6. On a PMF that is not empty, normalised or not, \<open>idxmax\<close> returns a grid value
  of the PMF whose mass is the largest: every mass before it is strictly smaller and
  no mass after it is larger, so it is the first grid value with the largest mass, and
  the lowest one when the grid is sorted. Scaling all masses by a positive constant does
  not change the result, and on equal weights the result is the first grid value.
\<close>

theorem idxmax_first_maximum:
  "(p \<noteq> [] \<longrightarrow>
      (\<exists>pre x m post. p = pre @ (x, m) # post \<and> idxmax p = Inr x
         \<and> (\<forall>(x', m')\<in>set pre. m' < m) \<and> (\<forall>(x', m')\<in>set post. m' \<le> m)
         \<and> (sorted (map fst p) \<longrightarrow> (\<forall>(x', m')\<in>set p. m' = m \<longrightarrow> x \<le> x'))))
   \<and> (0 < c \<longrightarrow> idxmax (map (\<lambda>(x, m). (x, c * m)) p) = idxmax p)
   \<and> idxmax (map (\<lambda>x. (x, w)) (x0 # xs)) = Inr x0"
proof (intro conjI impI)
  assume "p \<noteq> []"
  from idxmax_split [OF this] obtain pre x m post where
    s: "p = pre @ (x, m) # post" "idxmax p = Inr x"
       "\<forall>(x', m')\<in>set pre. m' < m" "\<forall>(x', m')\<in>set post. m' \<le> m"
    by blast
  have "sorted (map fst p) \<longrightarrow> (\<forall>(x', m')\<in>set p. m' = m \<longrightarrow> x \<le> x')"
    using idxmax_lowest [OF s(1) _ s(3)] by blast
  with s show "\<exists>pre x m post. p = pre @ (x, m) # post \<and> idxmax p = Inr x
         \<and> (\<forall>(x', m')\<in>set pre. m' < m) \<and> (\<forall>(x', m')\<in>set post. m' \<le> m)
         \<and> (sorted (map fst p) \<longrightarrow> (\<forall>(x', m')\<in>set p. m' = m \<longrightarrow> x \<le> x'))"
    by blast
next
  assume "0 < c"
  then show "idxmax (map (\<lambda>(x, m). (x, c * m)) p) = idxmax p"
    by (rule idxmax_scale)
next
  show "idxmax (map (\<lambda>x. (x, w)) (x0 # xs)) = Inr x0"
    by (rule idxmax_equal_weights)
qed

theorem idxmax_first_maximum_witness:
  "[(0, 1), (1/2, 3), (1, 3 :: rat)] \<noteq> ([] :: pmf)
   \<and> (\<exists>pre x m post. ([(0, 1), (1/2, 3), (1, 3)] :: pmf) = pre @ (x, m) # post
          \<and> idxmax [(0, 1), (1/2, 3), (1, 3)] = Inr x)
   \<and> (0 :: rat) < 2
   \<and> idxmax (map (\<lambda>(x, m). (x, 2 * m)) [(0, 1), (1/2, 3), (1, 3)]) = idxmax [(0, 1), (1/2, 3), (1, 3)]"
proof -
  let ?p = "[(0, 1), (1/2, 3), (1, 3 :: rat)] :: pmf"
  note t = idxmax_first_maximum [of ?p 2 0 0 "[]"]
  have a: "?p \<noteq> []"
    by simp
  have b: "(0 :: rat) < 2"
    by simp
  from t have "?p \<noteq> [] \<longrightarrow>
      (\<exists>pre x m post. ?p = pre @ (x, m) # post \<and> idxmax ?p = Inr x
         \<and> (\<forall>(x', m')\<in>set pre. m' < m) \<and> (\<forall>(x', m')\<in>set post. m' \<le> m)
         \<and> (sorted (map fst ?p) \<longrightarrow> (\<forall>(x', m')\<in>set ?p. m' = m \<longrightarrow> x \<le> x')))"
    by (rule conjunct1)
  with a obtain pre x m post where "?p = pre @ (x, m) # post" "idxmax ?p = Inr x"
    by blast
  then have c: "\<exists>pre x m post. ?p = pre @ (x, m) # post \<and> idxmax ?p = Inr x"
    by blast
  from t have "0 < (2::rat) \<longrightarrow> idxmax (map (\<lambda>(x, m). (x, 2 * m)) ?p) = idxmax ?p"
    by (rule conjunct1 [OF conjunct2])
  with b have d: "idxmax (map (\<lambda>(x, m). (x, 2 * m)) ?p) = idxmax ?p"
    by (rule rev_mp)
  from a b c d show ?thesis
    by (intro conjI)
qed

subsection \<open>The credible interval\<close>




lemma hd_cumsum_from: "cumsum_from a ((x, m) # r) = (x, a + m) # cumsum_from (a + m) r"
  by simp

lemma last_cumsum_from:
  "p \<noteq> [] \<Longrightarrow> last (cumsum_from a p) = (fst (last p), a + total_mass p)"
proof (induction a p rule: cumsum_from.induct)
  case (1 a)
  then show ?case by simp
next
  case (2 a x m r)
  show ?case
  proof (cases r)
    case Nil
    then show ?thesis by (simp add: total_mass_def)
  next
    case (Cons q r')
    with 2 have "last (cumsum_from (a + m) r) = (fst (last r), a + m + total_mass r)"
      by simp
    moreover from Cons have "cumsum_from (a + m) r \<noteq> []"
      by (cases q) simp
    ultimately show ?thesis
      using Cons by (simp add: total_mass_def add.assoc)
  qed
qed












lemma last_cumsum: "p \<noteq> [] \<Longrightarrow> last (cumsum p) = (fst (last p), total_mass p)"
  by (simp add: cumsum_def last_cumsum_from)




lemma credible_interval_eq:
  "p \<noteq> [] \<Longrightarrow>
   credible_interval p prob
   = Inr (interp1d (cumsum p) (fst (hd p)) (fst (last p)) ((1 - prob) / 2),
          interp1d (cumsum p) (fst (hd p)) (fst (last p)) (1 - (1 - prob) / 2))"
  by (cases p) (simp_all add: credible_interval_def Let_def)












lemma credible_interval_whole_grid:
  fixes p :: pmf
  assumes "p \<noteq> []" and "\<forall>(x, m)\<in>set p. 0 \<le> m" and "total_mass p = 1" and "1 < prob"
  shows "credible_interval p prob = Inr (fst (hd p), fst (last p))"
proof -
  let ?c = "cumsum p"
  from assms(1) obtain x m r where p: "p = (x, m) # r"
    by (cases p) auto
  with assms(2) have "0 \<le> m" by simp
  with p have "0 \<le> snd (hd ?c)"
    by (simp add: cumsum_def)
  with assms(4) have lo: "(1 - prob) / 2 < snd (hd ?c)"
    by simp
  from assms(1,3) have l: "snd (last ?c) = 1"
    by (simp add: last_cumsum)
  with assms(4) have hi: "snd (last ?c) < 1 - (1 - prob) / 2"
    by simp
  from assms(4) l have "\<not> snd (last ?c) < (1 - prob) / 2"
    by simp
  with lo hi show ?thesis
    unfolding credible_interval_eq [OF assms(1)] by (simp add: interp1d_def)
qed

text \<open>
  Claim C5, as the notebook has it. \<open>credible_interval\<close> does not look at the range of
  \<open>prob\<close>: on a PMF over a grid of at least two points it returns the two interpolated
  values for every \<open>prob\<close>, inside \<open>(0, 1)\<close> or not, and for \<open>prob\<close> above 1 on a
  normalised PMF they are the two ends of the grid. The error it has, the IndexError of
  an empty PMF, does not depend on \<open>prob\<close>.
\<close>

theorem credible_interval_any_prob:
  fixes p :: pmf
  shows "(2 \<le> length p \<longrightarrow>
            credible_interval p prob
            = Inr (interp1d (cumsum p) (fst (hd p)) (fst (last p)) ((1 - prob) / 2),
                   interp1d (cumsum p) (fst (hd p)) (fst (last p)) (1 - (1 - prob) / 2)))
     \<and> (2 \<le> length p \<and> (\<forall>(x, m)\<in>set p. 0 \<le> m) \<and> total_mass p = 1 \<and> 1 < prob \<longrightarrow>
          credible_interval p prob = Inr (fst (hd p), fst (last p)))
     \<and> credible_interval [] prob = Inl IndexError"
proof (intro conjI impI)
  assume "2 \<le> length p"
  then have "p \<noteq> []"
    by auto
  then show "credible_interval p prob
            = Inr (interp1d (cumsum p) (fst (hd p)) (fst (last p)) ((1 - prob) / 2),
                   interp1d (cumsum p) (fst (hd p)) (fst (last p)) (1 - (1 - prob) / 2))"
    by (rule credible_interval_eq)
next
  assume a: "2 \<le> length p \<and> (\<forall>(x, m)\<in>set p. 0 \<le> m) \<and> total_mass p = 1 \<and> 1 < prob"
  then have "p \<noteq> []"
    by auto
  with a show "credible_interval p prob = Inr (fst (hd p), fst (last p))"
    by (intro credible_interval_whole_grid) simp_all
next
  show "credible_interval [] prob = Inl IndexError"
    by (simp add: credible_interval_def)
qed

theorem credible_interval_any_prob_witness:
  "credible_interval [(0, 1/4), (1/2, 1/2), (1, 1/4)] 3 = Inr (0, 1)"
proof -
  let ?p = "[(0, 1/4), (1/2, 1/2), (1, 1/4)] :: pmf"
  have "2 \<le> length ?p \<and> (\<forall>(x, m)\<in>set ?p. 0 \<le> m) \<and> total_mass ?p = 1 \<and> (1::rat) < 3"
    by (simp add: total_mass_def)
  with credible_interval_any_prob [of ?p 3]
  have "credible_interval ?p 3 = Inr (fst (hd ?p), fst (last ?p))"
    by blast
  then show ?thesis by simp
qed

text \<open>With \<open>prob = 2\<close> the call returns a pair, not an error.\<close>

theorem credible_interval_any_prob_counterexample:
  "credible_interval [(0, 1/2), (1, 1/2)] 2 = Inr (0, 1)"
  by (simp add: credible_interval_def interp1d_def cumsum_def)

end
